theory Spec2Isabelle
  imports Main "HOL-Library.Word"
begin

section \<open>Runtime introspection of fibre-cpp (include/fibre/introspection.hpp)\<close>

subsection \<open>Memory read through a character pointer\<close>

text \<open>
  A \<^verbatim>\<open>const char *\<close> is modelled by the bytes that can be read through it: offset
  \<open>i\<close> of the pointer holds \<open>p i\<close>. Pointer arithmetic \<^verbatim>\<open>p + k\<close> is the shifted
  memory \<open>\<lambda>i. p (k + i)\<close>. Nothing is assumed about the bytes behind a buffer: the
  memory is total, so a read is never out of the model, and what a function reads is
  visible in what its result depends on.
\<close>

type_synonym cmem = "nat \<Rightarrow> char"

abbreviation NUL :: char where
  "NUL \<equiv> CHR 0x00"

text \<open>
  A string literal of the program: its characters, then the terminating null byte
  (and null bytes behind it, which no function below reads).
\<close>

definition cstr :: "string \<Rightarrow> cmem" where
  "cstr s i = (if i < length s then s ! i else NUL)"

text \<open>
  \<^verbatim>\<open>std::find(first, last, c)\<close> on a byte range given by two offsets: the first offset
  in \<open>[first, lst)\<close> holding \<open>c\<close>, or \<open>lst\<close> (the iterator \<^verbatim>\<open>last\<close>). The source
  only calls it with \<open>first \<le> lst\<close>.
\<close>

function std_find :: "cmem \<Rightarrow> nat \<Rightarrow> nat \<Rightarrow> char \<Rightarrow> nat" where
  "std_find mem first lst c =
     (if first < lst
      then (if mem first = c then first else std_find mem (Suc first) lst c)
      else lst)"
  by pat_completeness auto
termination
  by (relation "measure (\<lambda>(mem, first, lst, c). lst - first)") auto

declare std_find.simps [simp del]

text \<open>
  \<^verbatim>\<open>strncmp(s1, s2, n)\<close>: compares at most \<open>n\<close> bytes, as unsigned values, and stops
  behind a null byte common to both strings.
\<close>

fun strncmp :: "cmem \<Rightarrow> cmem \<Rightarrow> nat \<Rightarrow> int" where
  "strncmp s1 s2 0 = 0"
| "strncmp s1 s2 (Suc n) =
     (if s1 0 \<noteq> s2 0 then of_char (s1 0) - of_char (s2 0)
      else if s1 0 = NUL then 0
      else strncmp (\<lambda>i. s1 (Suc i)) (\<lambda>i. s2 (Suc i)) n)"

subsection \<open>The data model\<close>

text \<open>
  A pointer to a \<^verbatim>\<open>TypeInfo\<close> is the address of a statically allocated object, or
  \<^verbatim>\<open>nullptr\<close> (\<open>None\<close>). The objects live in a store indexed by address, so that
  tables may refer to each other and to themselves as the pointers of the program can.
\<close>

type_synonym type_ptr = "nat option"

text \<open>
  \<^verbatim>\<open>class Introspectable\<close>: twelve bytes of inline storage (\<^verbatim>\<open>storage_\<close>) and the
  pointer to the current type information (\<^verbatim>\<open>type_info_\<close>). A name cannot end in an
  underscore here, so the private members carry the prefix \<open>m_\<close> instead.
\<close>

record Introspectable =
  m_storage :: "8 word list"
  m_type_info :: type_ptr

text \<open>
  \<^verbatim>\<open>struct PropertyInfo\<close>. The getter is a function pointer
  \<^verbatim>\<open>void(*)(Introspectable&)\<close>: it rewrites the handle it is given and may read and
  write the application's objects, which are the state \<open>'w\<close> threaded through every
  call.
\<close>

record 'w PropertyInfo =
  name :: string
  getter :: "Introspectable \<Rightarrow> 'w \<Rightarrow> Introspectable \<times> 'w"
  type_info :: type_ptr

text \<open>
  \<^verbatim>\<open>class TypeInfo\<close>: the property table (the list holds the
  \<^verbatim>\<open>property_table_length_\<close> entries of \<^verbatim>\<open>property_table_\<close>) and the two virtual
  member functions, as the entries of the object's virtual table. A string hook gets
  the handle, the buffer and its length; \<^verbatim>\<open>get_string\<close> returns the buffer it wrote.
\<close>

record 'w TypeInfo =
  m_property_table :: "'w PropertyInfo list"
  get_string_hook :: "Introspectable \<Rightarrow> cmem \<Rightarrow> nat \<Rightarrow> 'w \<Rightarrow> bool \<times> cmem \<times> 'w"
  set_string_hook :: "Introspectable \<Rightarrow> cmem \<Rightarrow> nat \<Rightarrow> 'w \<Rightarrow> bool \<times> 'w"

type_synonym 'w type_store = "nat \<Rightarrow> 'w TypeInfo"

subsection \<open>TypeInfo\<close>

text \<open>The loop of \<^verbatim>\<open>TypeInfo::get_property_info\<close> over the entries of the table.\<close>

fun property_scan :: "'w PropertyInfo list \<Rightarrow> cmem \<Rightarrow> nat \<Rightarrow> 'w PropertyInfo option" where
  "property_scan [] nm len = None"
| "property_scan (prop # rest) nm len =
     (if strncmp nm (cstr (name prop)) len = 0 then Some prop
      else property_scan rest nm len)"

definition get_property_info :: "'w TypeInfo \<Rightarrow> cmem \<Rightarrow> nat \<Rightarrow> 'w PropertyInfo option" where
  "get_property_info ti nm len = property_scan (m_property_table ti) nm len"

text \<open>The default bodies of the two virtual functions: \<^verbatim>\<open>{ return false; }\<close>.\<close>

definition TypeInfo_get_string :: "Introspectable \<Rightarrow> cmem \<Rightarrow> nat \<Rightarrow> 'w \<Rightarrow> bool \<times> cmem \<times> 'w" where
  "TypeInfo_get_string obj buffer len w = (False, buffer, w)"

definition TypeInfo_set_string :: "Introspectable \<Rightarrow> cmem \<Rightarrow> nat \<Rightarrow> 'w \<Rightarrow> bool \<times> 'w" where
  "TypeInfo_set_string obj buffer len w = (False, w)"

text \<open>The constructor of the base class: a table, and no override of the hooks.\<close>

definition TypeInfo_ctor :: "'w PropertyInfo list \<Rightarrow> 'w TypeInfo" where
  "TypeInfo_ctor property_table =
     \<lparr>m_property_table = property_table,
      get_string_hook = TypeInfo_get_string,
      set_string_hook = TypeInfo_set_string\<rparr>"

subsection \<open>Introspectable\<close>

text \<open>
  The traversal is instrumented with a log that no branch reads: every call of
  \<^verbatim>\<open>get_property_info\<close> appends the address of the \<^verbatim>\<open>TypeInfo\<close> asked and the
  offset and length of the token, every call of a getter appends the name of the
  entry whose getter runs.
\<close>

datatype event = Lookup nat nat nat | Getter string

text \<open>
  The \<^verbatim>\<open>while\<close> loop of \<^verbatim>\<open>Introspectable::get_child\<close>. \<open>b\<close> and \<open>e\<close> are the
  offsets of \<^verbatim>\<open>begin\<close> and \<^verbatim>\<open>end\<close> from \<^verbatim>\<open>path\<close>.
\<close>

function get_child_loop ::
  "'w type_store \<Rightarrow> cmem \<Rightarrow> nat \<Rightarrow> nat \<Rightarrow> Introspectable \<Rightarrow> 'w \<Rightarrow> event list
     \<Rightarrow> Introspectable \<times> 'w \<times> event list" where
  "get_child_loop types path b e current w trace =
     (if b < e \<and> m_type_info current \<noteq> None then
        (let t = the (m_type_info current);
             end_of_token = std_find path b e (CHR ''.'');
             prop_info = get_property_info (types t) (\<lambda>i. path (b + i)) (end_of_token - b);
             trace1 = trace @ [Lookup t b (end_of_token - b)];
             b' = min e (end_of_token + 1)
         in case prop_info of
              Some p \<Rightarrow>
                (let (current1, w1) = getter p current w
                 in get_child_loop types path b' e
                      (current1\<lparr>m_type_info := type_info p\<rparr>) w1 (trace1 @ [Getter (name p)]))
            | None \<Rightarrow>
                get_child_loop types path b' e (current\<lparr>m_type_info := None\<rparr>) w trace1)
      else (current, w, trace))"
  by pat_completeness auto
termination
proof -
  have ge: "first \<le> std_find mem first lst c" if "first \<le> lst" for mem first lst c
    using that
  proof (induction mem first lst c rule: std_find.induct)
    case (1 mem first lst c)
    show ?case
    proof (cases "first < lst \<and> mem first \<noteq> c")
      case True
      with 1 have "Suc first \<le> std_find mem (Suc first) lst c" by simp
      moreover from True have "std_find mem first lst c = std_find mem (Suc first) lst c"
        by (subst std_find.simps) simp
      ultimately show ?thesis by simp
    next
      case False
      with 1(2) show ?thesis by (subst std_find.simps) auto
    qed
  qed
  have step: "b < e \<Longrightarrow> e - min e (Suc (std_find path b e c)) < e - b" for path b e c
    using ge [of b e path c] by arith
  show ?thesis
    by (relation "measure (\<lambda>(types, path, b, e, current, w, trace). e - b)")
       (simp_all add: step)
qed

declare get_child_loop.simps [simp del]

text \<open>
  The offsets of the model are natural numbers; in the code \<^verbatim>\<open>length\<close> is a
  \<^verbatim>\<open>size_t\<close> and \<^verbatim>\<open>path + length\<close> a pointer. The two agree as long as
  \<^verbatim>\<open>[path, path + length)\<close> is a range for \<^verbatim>\<open>std::find\<close>: the pointer
  \<^verbatim>\<open>path + length\<close> does not wrap around and its distance from \<^verbatim>\<open>path\<close> is a
  \<^verbatim>\<open>ptrdiff_t\<close>, that is, \<^verbatim>\<open>length\<close> is at most \<^verbatim>\<open>PTRDIFF_MAX\<close>, the largest
  signed value of the width of a pointer. A larger \<^verbatim>\<open>length\<close> gives \<^verbatim>\<open>std::find\<close> an
  end that cannot be reached from its start; the call is then outside of what
  \<^verbatim>\<open>std::find\<close> specifies, and what the code does is not described by the definitions
  of this theory. Where a statement depends on the logical end of the path, it is
  therefore made for a \<^verbatim>\<open>size_t\<close> of any width, \<open>'a word\<close>, that is at most
  \<open>PTRDIFF_MAX\<close>, and the length given to the model is \<open>unat\<close> of it.
\<close>

definition PTRDIFF_MAX :: "'a::len word" where
  "PTRDIFF_MAX = 2 ^ (LENGTH('a) - 1) - 1"

text \<open>
  \<^verbatim>\<open>Introspectable::get_child(path, length)\<close> with its log, and the handle it returns.
\<close>

definition get_child_run ::
  "'w type_store \<Rightarrow> Introspectable \<Rightarrow> cmem \<Rightarrow> nat \<Rightarrow> 'w \<Rightarrow> Introspectable \<times> 'w \<times> event list" where
  "get_child_run types this path len w =
     (let e = std_find path 0 len NUL
      in get_child_loop types path 0 e this w [])"

definition get_child :: "'w type_store \<Rightarrow> Introspectable \<Rightarrow> cmem \<Rightarrow> nat \<Rightarrow> 'w \<Rightarrow> Introspectable" where
  "get_child types this path len w = fst (get_child_run types this path len w)"

definition is_valid :: "Introspectable \<Rightarrow> bool" where
  "is_valid this = (m_type_info this \<noteq> None)"

text \<open>
  \<^verbatim>\<open>m_type_info && type_info_->get_string(*this, buffer, length)\<close>: the right operand
  of \<^verbatim>\<open>&&\<close> is only evaluated for a pointer that is not null.
\<close>

definition get_string ::
  "'w type_store \<Rightarrow> Introspectable \<Rightarrow> cmem \<Rightarrow> nat \<Rightarrow> 'w \<Rightarrow> bool \<times> cmem \<times> 'w" where
  "get_string types this buffer len w =
     (case m_type_info this of
        None \<Rightarrow> (False, buffer, w)
      | Some t \<Rightarrow> get_string_hook (types t) this buffer len w)"

definition set_string ::
  "'w type_store \<Rightarrow> Introspectable \<Rightarrow> cmem \<Rightarrow> nat \<Rightarrow> 'w \<Rightarrow> bool \<times> 'w" where
  "set_string types this buffer len w =
     (case m_type_info this of
        None \<Rightarrow> (False, w)
      | Some t \<Rightarrow> set_string_hook (types t) this buffer len w)"

subsection \<open>Built-in type infos\<close>

text \<open>
  The adapters \<^verbatim>\<open>FibrePropertyTypeInfo<Property<T>>\<close> call code that is not part of this
  header: the members \<^verbatim>\<open>read\<close> and \<^verbatim>\<open>exchange\<close> of \<^verbatim>\<open>Property<T>\<close> (applied to the
  handle's storage reinterpreted by \<^verbatim>\<open>as<const Property<T>>\<close>), the free functions
  \<^verbatim>\<open>to_string\<close> and \<^verbatim>\<open>from_string\<close>, and the two \<^verbatim>\<open>static_cast\<close>s between \<open>T\<close> (\<open>'t\<close>)
  and \<^verbatim>\<open>maybe_underlying_type_t<T>\<close> (\<open>'u\<close>). They are parameters of the model.
  \<^verbatim>\<open>from_string\<close> returns the value it stored through its pointer argument when it
  returns true, and \<open>None\<close> when it returns false.
\<close>

record ('w, 't, 'u) collaborators =
  Property_read :: "8 word list \<Rightarrow> 'w \<Rightarrow> 't"
  Property_exchange :: "8 word list \<Rightarrow> 't \<Rightarrow> 'w \<Rightarrow> 'w"
  cast_underlying :: "'t \<Rightarrow> 'u"
  cast_T :: "'u \<Rightarrow> 't"
  to_string :: "'u \<Rightarrow> cmem \<Rightarrow> nat \<Rightarrow> bool \<times> cmem"
  from_string :: "cmem \<Rightarrow> nat \<Rightarrow> 'u option"

text \<open>\<^verbatim>\<open>get_string\<close> of both adapters.\<close>

definition FibrePropertyTypeInfo_get_string ::
  "('w, 't, 'u) collaborators \<Rightarrow> Introspectable \<Rightarrow> cmem \<Rightarrow> nat \<Rightarrow> 'w \<Rightarrow> bool \<times> cmem \<times> 'w" where
  "FibrePropertyTypeInfo_get_string ext obj buffer len w =
     (let (ok, buffer') =
            to_string ext (cast_underlying ext (Property_read ext (m_storage obj) w)) buffer len
      in (ok, buffer', w))"

text \<open>\<^verbatim>\<open>set_string\<close> of the adapter of a read-write property.\<close>

definition FibrePropertyTypeInfo_set_string ::
  "('w, 't, 'u) collaborators \<Rightarrow> Introspectable \<Rightarrow> cmem \<Rightarrow> nat \<Rightarrow> 'w \<Rightarrow> bool \<times> 'w" where
  "FibrePropertyTypeInfo_set_string ext obj buffer len w =
     (case from_string ext buffer len of
        None \<Rightarrow> (False, w)
      | Some v \<Rightarrow> (True, Property_exchange ext (m_storage obj) (cast_T ext v) w))"

text \<open>
  The singletons: an empty property table; the read-only adapter inherits
  \<^verbatim>\<open>TypeInfo::set_string\<close>.
\<close>

definition FibrePropertyTypeInfo_readonly :: "('w, 't, 'u) collaborators \<Rightarrow> 'w TypeInfo" where
  "FibrePropertyTypeInfo_readonly ext =
     \<lparr>m_property_table = [],
      get_string_hook = FibrePropertyTypeInfo_get_string ext,
      set_string_hook = TypeInfo_set_string\<rparr>"

definition FibrePropertyTypeInfo_readwrite :: "('w, 't, 'u) collaborators \<Rightarrow> 'w TypeInfo" where
  "FibrePropertyTypeInfo_readwrite ext =
     \<lparr>m_property_table = [],
      get_string_hook = FibrePropertyTypeInfo_get_string ext,
      set_string_hook = FibrePropertyTypeInfo_set_string ext\<rparr>"

subsection \<open>An application\<close>

text \<open>
  A small object tree for the concrete runs below: \<open>axis.motor.velocity\<close> and
  \<open>axis.encoder\<close>. The state of the application is the value of the one \<^verbatim>\<open>int\<close>
  property \<open>velocity\<close>; a getter leaves in the storage the number of the object it
  moved the handle to. The conversion routines handle one decimal digit.
\<close>

definition example_getter :: "8 word \<Rightarrow> Introspectable \<Rightarrow> int \<Rightarrow> Introspectable \<times> int" where
  "example_getter k obj w = (obj\<lparr>m_storage := [k, 0, 0, 0, 0, 0, 0, 0, 0, 0, 0, 0]\<rparr>, w)"

definition example_ext :: "(int, int, int) collaborators" where
  "example_ext =
     \<lparr>Property_read = (\<lambda>bytes w. w),
      Property_exchange = (\<lambda>bytes v w. v),
      cast_underlying = (\<lambda>v. v),
      cast_T = (\<lambda>v. v),
      to_string = (\<lambda>v buffer len.
        if 0 \<le> v \<and> v < 10 \<and> 2 \<le> len
        then (True, buffer(0 := char_of (48 + v), 1 := NUL))
        else (False, buffer)),
      from_string = (\<lambda>buffer len.
        if 1 \<le> len \<and> (48::int) \<le> of_char (buffer 0) \<and> of_char (buffer 0) \<le> (57::int)
           \<and> (len = 1 \<or> buffer 1 = NUL)
        then Some (of_char (buffer 0) - 48)
        else None)\<rparr>"

definition example_types :: "int type_store" where
  "example_types a =
     (if a = 0 then
        TypeInfo_ctor [\<lparr>name = ''axis'', getter = example_getter 1, type_info = Some 1\<rparr>]
      else if a = 1 then
        TypeInfo_ctor [\<lparr>name = ''motor'', getter = example_getter 2, type_info = Some 2\<rparr>,
                       \<lparr>name = ''encoder'', getter = example_getter 3, type_info = Some 4\<rparr>]
      else if a = 2 then
        TypeInfo_ctor [\<lparr>name = ''velocity'', getter = example_getter 4, type_info = Some 3\<rparr>]
      else if a = 3 then FibrePropertyTypeInfo_readwrite example_ext
      else TypeInfo_ctor [])"

definition example_root :: Introspectable where
  "example_root = \<lparr>m_storage = [0, 0, 0, 0, 0, 0, 0, 0, 0, 0, 0, 0], m_type_info = Some 0\<rparr>"

section \<open>Properties\<close>

subsection \<open>Searching a byte range\<close>

lemma std_find_stop: "\<not> first < lst \<Longrightarrow> std_find mem first lst c = lst"
  by (subst std_find.simps) simp

lemma std_find_here: "first < lst \<Longrightarrow> mem first = c \<Longrightarrow> std_find mem first lst c = first"
  by (subst std_find.simps) simp

lemma std_find_next:
  "first < lst \<Longrightarrow> mem first \<noteq> c \<Longrightarrow> std_find mem first lst c = std_find mem (Suc first) lst c"
  by (subst std_find.simps) simp

lemma std_find_bounds:
  "first \<le> lst \<Longrightarrow> first \<le> std_find mem first lst c \<and> std_find mem first lst c \<le> lst"
proof (induction mem first lst c rule: std_find.induct)
  case (1 mem first lst c)
  show ?case
  proof (cases "first < lst")
    case False
    with 1(2) show ?thesis by (simp add: std_find_stop)
  next
    case True
    show ?thesis
    proof (cases "mem first = c")
      case True
      with \<open>first < lst\<close> show ?thesis by (simp add: std_find_here)
    next
      case False
      with \<open>first < lst\<close> 1(1) show ?thesis by (simp add: std_find_next)
    qed
  qed
qed

lemma std_find_before:
  "first \<le> i \<Longrightarrow> i < std_find mem first lst c \<Longrightarrow> mem i \<noteq> c"
proof (induction mem first lst c rule: std_find.induct)
  case (1 mem first lst c)
  show ?case
  proof (cases "first < lst")
    case False
    with 1(2,3) show ?thesis by (simp add: std_find_stop)
  next
    case True
    show ?thesis
    proof (cases "mem first = c")
      case True
      with \<open>first < lst\<close> 1(2,3) show ?thesis by (simp add: std_find_here)
    next
      case False
      show ?thesis
      proof (cases "i = first")
        case True
        with False show ?thesis by simp
      next
        case ne: False
        with 1(2) have "Suc first \<le> i" by simp
        moreover from 1(3) False \<open>first < lst\<close> have "i < std_find mem (Suc first) lst c"
          by (simp add: std_find_next)
        ultimately show ?thesis using 1(1) False \<open>first < lst\<close> by simp
      qed
    qed
  qed
qed

lemma std_find_at:
  "first \<le> lst \<Longrightarrow> std_find mem first lst c < lst \<Longrightarrow> mem (std_find mem first lst c) = c"
proof (induction mem first lst c rule: std_find.induct)
  case (1 mem first lst c)
  show ?case
  proof (cases "first < lst")
    case False
    with 1(3) show ?thesis by (simp add: std_find_stop)
  next
    case True
    show ?thesis
    proof (cases "mem first = c")
      case True
      with \<open>first < lst\<close> show ?thesis by (simp add: std_find_here)
    next
      case False
      with \<open>first < lst\<close> 1(1,3) show ?thesis by (simp add: std_find_next)
    qed
  qed
qed

lemma std_find_cong:
  "(\<And>i. first \<le> i \<Longrightarrow> i < lst \<Longrightarrow> mem' i = mem i)
     \<Longrightarrow> std_find mem' first lst c = std_find mem first lst c"
proof (induction mem first lst c rule: std_find.induct)
  case (1 mem first lst c)
  show ?case
  proof (cases "first < lst")
    case False
    then show ?thesis by (simp add: std_find_stop)
  next
    case True
    then have same: "mem' first = mem first" using 1(2) [of first] by simp
    show ?thesis
    proof (cases "mem first = c")
      case True
      with \<open>first < lst\<close> same show ?thesis by (simp add: std_find_here)
    next
      case False
      have "std_find mem' (Suc first) lst c = std_find mem (Suc first) lst c"
      proof (rule 1(1) [OF \<open>first < lst\<close> False])
        fix i assume "Suc first \<le> i" "i < lst"
        then show "mem' i = mem i" using 1(2) [of i] by simp
      qed
      moreover have "std_find mem' first lst c = std_find mem' (Suc first) lst c"
        using \<open>first < lst\<close> False same by (intro std_find_next) simp_all
      moreover have "std_find mem first lst c = std_find mem (Suc first) lst c"
        using \<open>first < lst\<close> False by (intro std_find_next)
      ultimately show ?thesis by simp
    qed
  qed
qed

lemma std_find_one_more:
  "first \<le> n \<Longrightarrow> mem n = c \<Longrightarrow> std_find mem first (Suc n) c = std_find mem first n c"
proof (induction "n - first" arbitrary: first)
  case 0
  then have "first = n" by simp
  with 0 show ?case by (simp add: std_find_stop std_find_here)
next
  case (Suc d)
  then have lt: "first < n" by simp
  show ?case
  proof (cases "mem first = c")
    case True
    with lt show ?thesis by (simp add: std_find_here)
  next
    case False
    from Suc(2) lt have "d = n - Suc first" by simp
    with Suc(1) [of "Suc first"] lt Suc(4) False show ?thesis
      by (simp add: std_find_next)
  qed
qed

lemma std_find_absent:
  assumes "first \<le> lst" and "\<And>i. first \<le> i \<Longrightarrow> i < lst \<Longrightarrow> mem i \<noteq> c"
  shows "std_find mem first lst c = lst"
proof (rule ccontr)
  assume "std_find mem first lst c \<noteq> lst"
  with std_find_bounds [OF assms(1), of mem c] have lt: "std_find mem first lst c < lst" by simp
  then have "mem (std_find mem first lst c) = c" by (rule std_find_at [OF assms(1)])
  moreover have "mem (std_find mem first lst c) \<noteq> c"
    using std_find_bounds [OF assms(1), of mem c] lt by (intro assms(2)) simp_all
  ultimately show False by simp
qed

lemma std_find_unique:
  assumes "first \<le> e" and "e \<le> lst"
    and before: "\<And>i. first \<le> i \<Longrightarrow> i < e \<Longrightarrow> mem i \<noteq> c"
    and at: "e < lst \<Longrightarrow> mem e = c"
  shows "std_find mem first lst c = e"
proof -
  let ?r = "std_find mem first lst c"
  have fl: "first \<le> lst" using assms(1,2) by simp
  have bounds: "first \<le> ?r \<and> ?r \<le> lst" by (rule std_find_bounds [OF fl])
  have "\<not> ?r < e"
  proof
    assume lt: "?r < e"
    then have "?r < lst" using assms(2) by simp
    then have "mem ?r = c" by (rule std_find_at [OF fl])
    moreover have "mem ?r \<noteq> c" using bounds lt by (intro before) simp_all
    ultimately show False by simp
  qed
  moreover have "\<not> e < ?r"
  proof
    assume lt: "e < ?r"
    then have "e < lst" using bounds by simp
    then have "mem e = c" by (rule at)
    moreover have "mem e \<noteq> c" by (rule std_find_before [OF assms(1) lt])
    ultimately show False by simp
  qed
  ultimately show ?thesis by simp
qed

subsection \<open>Comparing and looking up a token\<close>

lemma strncmp_cong:
  "(\<And>i. i < n \<Longrightarrow> s1' i = s1 i) \<Longrightarrow> strncmp s1' s2 n = strncmp s1 s2 n"
proof (induction n arbitrary: s1 s1' s2)
  case 0
  show ?case by simp
next
  case (Suc n)
  have "s1' 0 = s1 0" using Suc(2) by simp
  moreover have "strncmp (\<lambda>i. s1' (Suc i)) (\<lambda>i. s2 (Suc i)) n
      = strncmp (\<lambda>i. s1 (Suc i)) (\<lambda>i. s2 (Suc i)) n"
    using Suc(2) by (intro Suc(1)) simp
  ultimately show ?case by simp
qed

lemma property_scan_cong:
  "(\<And>i. i < n \<Longrightarrow> nm' i = nm i) \<Longrightarrow> property_scan table nm' n = property_scan table nm n"
proof (induction table)
  case Nil
  show ?case by simp
next
  case (Cons p rest)
  have "strncmp nm' (cstr (name p)) n = strncmp nm (cstr (name p)) n"
    by (rule strncmp_cong) (rule Cons(2))
  moreover have "property_scan rest nm' n = property_scan rest nm n"
    by (rule Cons(1)) (rule Cons(2))
  ultimately show ?case by simp
qed

lemma get_property_info_cong:
  "(\<And>i. i < n \<Longrightarrow> nm' i = nm i) \<Longrightarrow> get_property_info ti nm' n = get_property_info ti nm n"
  unfolding get_property_info_def by (rule property_scan_cong)

subsection \<open>The traversal loop\<close>

lemma get_child_loop_stop:
  "\<not> (b < e \<and> m_type_info current \<noteq> None)
     \<Longrightarrow> get_child_loop types path b e current w trace = (current, w, trace)"
  by (subst get_child_loop.simps) auto

lemma get_child_loop_found:
  assumes "b < e" and "m_type_info current = Some t"
    and "get_property_info (types t) (\<lambda>i. path (b + i)) (std_find path b e (CHR ''.'') - b) = Some p"
    and "getter p current w = (current1, w1)"
  shows "get_child_loop types path b e current w trace =
           get_child_loop types path (min e (Suc (std_find path b e (CHR ''.'')))) e
             (current1\<lparr>m_type_info := type_info p\<rparr>) w1
             (trace @ [Lookup t b (std_find path b e (CHR ''.'') - b), Getter (name p)])"
  using assms by (subst get_child_loop.simps) (simp add: Let_def)

lemma get_child_loop_missing:
  assumes "b < e" and "m_type_info current = Some t"
    and "get_property_info (types t) (\<lambda>i. path (b + i)) (std_find path b e (CHR ''.'') - b) = None"
  shows "get_child_loop types path b e current w trace =
           (current\<lparr>m_type_info := None\<rparr>, w,
            trace @ [Lookup t b (std_find path b e (CHR ''.'') - b)])"
proof -
  have "get_child_loop types path b e current w trace =
          get_child_loop types path (min e (Suc (std_find path b e (CHR ''.'')))) e
            (current\<lparr>m_type_info := None\<rparr>) w
            (trace @ [Lookup t b (std_find path b e (CHR ''.'') - b)])"
    using assms by (subst get_child_loop.simps) (simp add: Let_def)
  then show ?thesis by (simp add: get_child_loop_stop)
qed

lemma get_child_loop_cong:
  assumes same: "\<And>i. i < e \<Longrightarrow> path' i = path i"
  shows "get_child_loop types path' b e current w trace =
           get_child_loop types path b e current w trace"
proof (induction "e - b" arbitrary: b current w trace rule: less_induct)
  case less
  show ?case
  proof (cases "b < e \<and> m_type_info current \<noteq> None")
    case False
    then show ?thesis by (simp add: get_child_loop_stop)
  next
    case True
    then obtain t where lt: "b < e" and t: "m_type_info current = Some t" by auto
    let ?k = "std_find path b e (CHR ''.'')"
    have k': "std_find path' b e (CHR ''.'') = ?k"
      by (rule std_find_cong) (rule same)
    have bounds: "b \<le> ?k \<and> ?k \<le> e"
      using lt by (intro std_find_bounds) simp
    have look: "get_property_info (types t) (\<lambda>i. path' (b + i)) (?k - b)
        = get_property_info (types t) (\<lambda>i. path (b + i)) (?k - b)"
      using bounds by (intro get_property_info_cong same) arith
    have dec: "e - min e (Suc ?k) < e - b"
      using lt bounds by arith
    show ?thesis
    proof (cases "get_property_info (types t) (\<lambda>i. path (b + i)) (?k - b)")
      case None
      with lt t k' look show ?thesis by (simp add: get_child_loop_missing)
    next
      case (Some p)
      obtain current1 w1 where g: "getter p current w = (current1, w1)"
        by (cases "getter p current w")
      have "get_child_loop types path' b e current w trace =
              get_child_loop types path' (min e (Suc ?k)) e
                (current1\<lparr>m_type_info := type_info p\<rparr>) w1
                (trace @ [Lookup t b (?k - b), Getter (name p)])"
        using get_child_loop_found [of b e current t types path' p w current1 w1 trace]
          lt t k' look Some g by simp
      also have "\<dots> = get_child_loop types path (min e (Suc ?k)) e
                (current1\<lparr>m_type_info := type_info p\<rparr>) w1
                (trace @ [Lookup t b (?k - b), Getter (name p)])"
        by (rule less [OF dec])
      also have "\<dots> = get_child_loop types path b e current w trace"
        using get_child_loop_found [of b e current t types path p w current1 w1 trace]
          lt t Some g by simp
      finally show ?thesis .
    qed
  qed
qed

lemma get_child_loop_trailing_dot:
  assumes dot: "path n = CHR ''.''" and nodot: "path (n - 1) \<noteq> CHR ''.''"
  shows "b < n \<Longrightarrow> get_child_loop types path b (Suc n) current w trace =
           get_child_loop types path b n current w trace"
proof (induction "n - b" arbitrary: b current w trace rule: less_induct)
  case less
  note lt = \<open>b < n\<close>
  show ?case
  proof (cases "m_type_info current")
    case None
    then show ?thesis by (simp add: get_child_loop_stop)
  next
    case (Some t)
    let ?k = "std_find path b n (CHR ''.'')"
    have k': "std_find path b (Suc n) (CHR ''.'') = ?k"
      using lt dot by (intro std_find_one_more) simp_all
    have bounds: "b \<le> ?k \<and> ?k \<le> n"
      using lt by (intro std_find_bounds) simp
    show ?thesis
    proof (cases "get_property_info (types t) (\<lambda>i. path (b + i)) (?k - b)")
      case None
      with lt Some k' show ?thesis by (simp add: get_child_loop_missing)
    next
      case found: (Some p)
      obtain current1 w1 where g: "getter p current w = (current1, w1)"
        by (cases "getter p current w")
      let ?c = "current1\<lparr>m_type_info := type_info p\<rparr>"
      let ?tr = "trace @ [Lookup t b (?k - b), Getter (name p)]"
      have long: "get_child_loop types path b (Suc n) current w trace =
              get_child_loop types path (min (Suc n) (Suc ?k)) (Suc n) ?c w1 ?tr"
        using get_child_loop_found [of b "Suc n" current t types path p w current1 w1 trace]
          lt Some k' found g by simp
      have short: "get_child_loop types path b n current w trace =
              get_child_loop types path (min n (Suc ?k)) n ?c w1 ?tr"
        using get_child_loop_found [of b n current t types path p w current1 w1 trace]
          lt Some found g by simp
      show ?thesis
      proof (cases "?k = n")
        case True
        with long short show ?thesis by (simp add: get_child_loop_stop)
      next
        case False
        with bounds have kn: "?k < n" by simp
        then have "path ?k = CHR ''.''"
          using lt by (intro std_find_at) simp_all
        with nodot have "?k \<noteq> n - 1" by auto
        with kn have next_lt: "Suc ?k < n" by arith
        then have "get_child_loop types path (Suc ?k) (Suc n) ?c w1 ?tr =
                     get_child_loop types path (Suc ?k) n ?c w1 ?tr"
          using bounds lt by (intro less) arith+
        with long short next_lt show ?thesis by (simp add: min_def)
      qed
    qed
  qed
qed

lemma get_child_loop_lookups:
  "(\<forall>t b' n. Lookup t b' n \<in> set trace \<longrightarrow> b' + n \<le> e) \<Longrightarrow>
     (\<forall>t b' n. Lookup t b' n \<in> set (snd (snd (get_child_loop types path b e current w trace)))
        \<longrightarrow> b' + n \<le> e)"
proof (induction "e - b" arbitrary: b current w trace rule: less_induct)
  case less
  note inv = less.prems
  show ?case
  proof (cases "b < e \<and> m_type_info current \<noteq> None")
    case False
    with inv show ?thesis by (simp add: get_child_loop_stop)
  next
    case True
    then obtain t where lt: "b < e" and t: "m_type_info current = Some t" by auto
    let ?k = "std_find path b e (CHR ''.'')"
    have bounds: "b \<le> ?k \<and> ?k \<le> e"
      using lt by (intro std_find_bounds) simp
    have inv1: "\<forall>t' b' n. Lookup t' b' n \<in> set (trace @ [Lookup t b (?k - b)]) \<longrightarrow> b' + n \<le> e"
      using inv bounds by auto
    have dec: "e - min e (Suc ?k) < e - b"
      using lt bounds by arith
    show ?thesis
    proof (cases "get_property_info (types t) (\<lambda>i. path (b + i)) (?k - b)")
      case None
      with lt t inv1 show ?thesis by (simp add: get_child_loop_missing)
    next
      case (Some p)
      obtain current1 w1 where g: "getter p current w = (current1, w1)"
        by (cases "getter p current w")
      have inv2: "\<forall>t' b' n. Lookup t' b' n \<in> set (trace @ [Lookup t b (?k - b), Getter (name p)])
          \<longrightarrow> b' + n \<le> e"
        using inv1 by auto
      have "get_child_loop types path b e current w trace =
              get_child_loop types path (min e (Suc ?k)) e
                (current1\<lparr>m_type_info := type_info p\<rparr>) w1
                (trace @ [Lookup t b (?k - b), Getter (name p)])"
        using lt t Some g by (rule get_child_loop_found)
      moreover have "\<forall>t' b' n. Lookup t' b' n \<in> set (snd (snd
              (get_child_loop types path (min e (Suc ?k)) e
                (current1\<lparr>m_type_info := type_info p\<rparr>) w1
                (trace @ [Lookup t b (?k - b), Getter (name p)])))) \<longrightarrow> b' + n \<le> e"
        using dec inv2 by (rule less.hyps)
      ultimately show ?thesis by simp
    qed
  qed
qed

subsection \<open>Concrete runs\<close>

lemma strncmp_unfold:
  "strncmp s1 s2 n =
     (if n = 0 then 0
      else if s1 0 \<noteq> s2 0 then of_char (s1 0) - of_char (s2 0)
      else if s1 0 = NUL then 0
      else strncmp (\<lambda>i. s1 (Suc i)) (\<lambda>i. s2 (Suc i)) (n - 1))"
  by (cases n) simp_all

lemmas run_simps =
  get_child_def get_child_run_def get_child_loop.simps std_find.simps cstr_def strncmp_unfold
  get_property_info_def is_valid_def

lemmas example_simps =
  example_types_def example_root_def example_getter_def example_ext_def TypeInfo_ctor_def

section \<open>The claims\<close>

subsection \<open>Lookup in a property table\<close>

text \<open>
  C1 (the code departs from it): \<^verbatim>\<open>get_property_info\<close> is to return the first entry whose
  name equals the query exactly, so that the query \<open>foo\<close> of length 3 does not match a
  stored \<open>foobar\<close>. The loop compares with \<^verbatim>\<open>strncmp(name, prop->name, length)\<close> and
  never looks at the byte of the stored name behind the first \<open>length\<close> ones: on the
  table holding only \<open>foobar\<close>, the query \<open>foo\<close> of length 3 returns the entry
  \<open>foobar\<close>.
\<close>

theorem get_property_info_prefix_match:
  "map_option name
     (get_property_info
        (TypeInfo_ctor [\<lparr>name = ''foobar'', getter = example_getter 1, type_info = None\<rparr>])
        (cstr ''foo'') 3) = Some ''foobar''"
  by (simp add: run_simps TypeInfo_ctor_def)

text \<open>
  C9: on a table that is not empty, \<^verbatim>\<open>get_property_info\<close> with length 0 returns the
  first entry of the table, whatever the query bytes and the stored names are: a
  comparison of zero bytes succeeds.
\<close>

theorem get_property_info_zero_length:
  "m_property_table ti \<noteq> [] \<Longrightarrow>
     get_property_info ti nm 0 = Some (hd (m_property_table ti))"
  by (cases "m_property_table ti") (simp_all add: get_property_info_def)

theorem get_property_info_zero_length_witness:
  "m_property_table (example_types 1) \<noteq> []
   \<and> map_option name (get_property_info (example_types 1) (cstr ''velocity'') 0) = Some ''motor''"
  using get_property_info_zero_length [of "example_types 1" "cstr ''velocity''"]
  by (simp add: example_types_def TypeInfo_ctor_def)

subsection \<open>Path traversal\<close>

text \<open>
  C2 (the code departs from it): a segment that is not registered in the table reached
  at its level is to invalidate the handle, and nothing behind it is to be looked up or
  invoked. In the application above the table of \<open>axis\<close> registers \<open>motor\<close> and
  \<open>encoder\<close>, not \<open>mot\<close>; on the path \<open>axis.mot.velocity\<close> the segment \<open>mot\<close> is
  taken for \<open>motor\<close>, the getter of \<open>motor\<close> runs, the following token \<open>velocity\<close> is
  looked up and its getter runs, and the handle returned is valid. (Where the lookup
  does return no entry, the loop stops as described: \<open>get_child_loop_missing\<close>.)
\<close>

theorem get_child_unregistered_prefix_segment:
  "get_child_run example_types example_root (cstr ''axis.mot.velocity'') 17 5 =
     (\<lparr>m_storage = [4, 0, 0, 0, 0, 0, 0, 0, 0, 0, 0, 0], m_type_info = Some 3\<rparr>, 5,
      [Lookup 0 0 4, Getter ''axis'', Lookup 1 5 3, Getter ''motor'',
       Lookup 2 9 8, Getter ''velocity''])"
  by (simp add: run_simps example_simps)

text \<open>
  C3 (the code departs from it): the empty token between two consecutive separators is
  to fail the lookup and invalidate the handle. On the path \<open>axis..velocity\<close> the empty
  token is looked up with length 0 in the table of \<open>axis\<close>, which returns its first
  entry \<open>motor\<close>; the getter of \<open>motor\<close> runs and the traversal goes on to
  \<open>velocity\<close>: the path resolves like \<open>axis.motor.velocity\<close>.
\<close>

theorem get_child_empty_token_matches:
  "get_child_run example_types example_root (cstr ''axis..velocity'') 14 5 =
     (\<lparr>m_storage = [4, 0, 0, 0, 0, 0, 0, 0, 0, 0, 0, 0], m_type_info = Some 3\<rparr>, 5,
      [Lookup 0 0 4, Getter ''axis'', Lookup 1 5 0, Getter ''motor'',
       Lookup 2 6 8, Getter ''velocity''])"
  by (simp add: run_simps example_simps)

text \<open>
  C4, as stated, fails: a trailing separator produces no empty final token. On the path
  \<open>axis.\<close> the only lookup is that of \<open>axis\<close>, and the handle returned is the valid
  handle of \<open>axis\<close>.
\<close>

theorem get_child_trailing_dot_valid:
  "is_valid (get_child example_types example_root (cstr ''axis.'') 5 5)
   \<and> get_child_run example_types example_root (cstr ''axis.'') 5 5 =
     (\<lparr>m_storage = [1, 0, 0, 0, 0, 0, 0, 0, 0, 0, 0, 0], m_type_info = Some 1\<rparr>, 5,
      [Lookup 0 0 4, Getter ''axis''])"
  by (simp add: run_simps example_simps)

text \<open>
  C4, amended: a trailing \<open>.\<close> that directly follows a last segment that is not empty
  is consumed as the separator of that segment and produces no further token. For a
  path of \<open>n > 0\<close> bytes without a null byte whose last byte is not a separator,
  followed by a separator, \<^verbatim>\<open>get_child\<close> with the length \<open>n + 1\<close> does the same
  lookups, calls the same getters and returns the same handle as with the length
  \<open>n\<close>, that is, as for the path without the trailing separator.
\<close>

theorem get_child_trailing_dot:
  assumes "0 < n" and "\<forall>i<n. path i \<noteq> NUL"
    and "path (n - 1) \<noteq> CHR ''.''" and "path n = CHR ''.''"
  shows "get_child_run types this path (Suc n) w = get_child_run types this path n w"
proof -
  have "std_find path 0 (Suc n) NUL = Suc n"
    using assms(2,4) by (intro std_find_absent) (auto simp: less_Suc_eq)
  moreover have "std_find path 0 n NUL = n"
    using assms(2) by (intro std_find_absent) auto
  moreover have "get_child_loop types path 0 (Suc n) this w [] =
      get_child_loop types path 0 n this w []"
    using assms(1,3,4) by (intro get_child_loop_trailing_dot)
  ultimately show ?thesis by (simp add: get_child_run_def)
qed

theorem get_child_trailing_dot_witness:
  "get_child_run example_types example_root (cstr ''axis.'') 5 5 =
     get_child_run example_types example_root (cstr ''axis.'') 4 5
   \<and> is_valid (get_child example_types example_root (cstr ''axis.'') 4 5)"
proof -
  have "\<forall>i<4. cstr ''axis.'' i \<noteq> NUL"
    by (simp add: cstr_def eval_nat_numeral All_less_Suc)
  then have "get_child_run example_types example_root (cstr ''axis.'') (Suc 4) 5 =
     get_child_run example_types example_root (cstr ''axis.'') 4 5"
    by (intro get_child_trailing_dot) (simp_all add: cstr_def)
  moreover have "is_valid (get_child example_types example_root (cstr ''axis.'') 4 5)"
    by (simp add: run_simps example_simps)
  ultimately show ?thesis by simp
qed

text \<open>
  C7: \<^verbatim>\<open>get_child\<close> on an empty path (a length of zero, or a first byte that is the null
  byte) returns the receiver: the same storage bytes and the same \<^verbatim>\<open>TypeInfo\<close>
  pointer. No lookup is done, no getter runs and the application is left as it was.
  The length is a \<^verbatim>\<open>size_t\<close> of at most \<open>PTRDIFF_MAX\<close>, so that \<^verbatim>\<open>path + length\<close>
  ends a range.
\<close>

theorem get_child_empty_path:
  fixes len :: "'a::len word"
  assumes "len \<le> PTRDIFF_MAX" and "len = 0 \<or> path 0 = NUL"
  shows "get_child types this path (unat len) w = this
     \<and> get_child_run types this path (unat len) w = (this, w, [])"
proof -
  have "std_find path 0 (unat len) NUL = 0"
    using assms(2) by (cases "unat len = 0") (auto simp: std_find_stop std_find_here)
  then show ?thesis
    by (simp add: get_child_def get_child_run_def get_child_loop_stop)
qed

theorem get_child_empty_path_witness:
  "(0 :: 64 word) \<le> PTRDIFF_MAX \<and> (8 :: 64 word) \<le> PTRDIFF_MAX
   \<and> get_child example_types example_root (cstr ''axis'') 0 5 = example_root
   \<and> get_child example_types example_root (cstr '''') 8 5 = example_root"
proof -
  have small: "(0 :: 64 word) \<le> PTRDIFF_MAX" "(8 :: 64 word) \<le> PTRDIFF_MAX"
    by (simp_all add: PTRDIFF_MAX_def)
  have "cstr '''' 0 = NUL" by (simp add: cstr_def)
  with small show ?thesis
    using get_child_empty_path [of "0 :: 64 word" "cstr ''axis''" example_types example_root 5]
      get_child_empty_path [of "8 :: 64 word" "cstr ''''" example_types example_root 5]
    by simp
qed

text \<open>
  C8: for a length bound of at most \<open>PTRDIFF_MAX\<close>, \<^verbatim>\<open>get_child\<close> runs its loop up to
  the logical end \<open>e\<close> of the path, the smaller of the offset of the first null byte
  and the length bound: \<open>e\<close> is at most the bound, no byte before \<open>e\<close> is null, and
  where \<open>e\<close> is below the bound the byte at \<open>e\<close> is null. The traversal examines no
  byte at or behind \<open>e\<close>: every token it looks up lies before \<open>e\<close>, and a call on any
  other buffer and bound with the same logical end and the same bytes before it does
  the same lookups, calls the same getters and returns the same handle, whatever the
  bytes from \<open>e\<close> on are, null-terminated or not.
\<close>

theorem get_child_honours_logical_end:
  fixes len :: "'a::len word"
  assumes "len \<le> PTRDIFF_MAX"
  shows "\<exists>e. e \<le> unat len \<and> (\<forall>i<e. path i \<noteq> NUL) \<and> (e < unat len \<longrightarrow> path e = NUL)
     \<and> get_child_run types this path (unat len) w = get_child_loop types path 0 e this w []
     \<and> (\<forall>t b n. Lookup t b n \<in> set (snd (snd (get_child_run types this path (unat len) w)))
           \<longrightarrow> b + n \<le> e)
     \<and> (\<forall>path' (len' :: 'a word).
           len' \<le> PTRDIFF_MAX \<and> e \<le> unat len' \<and> (\<forall>i<e. path' i = path i)
           \<and> (e < unat len' \<longrightarrow> path' e = NUL)
           \<longrightarrow> get_child_run types this path' (unat len') w =
                 get_child_run types this path (unat len) w)"
proof -
  let ?e = "std_find path 0 (unat len) NUL"
  have le: "?e \<le> unat len"
    using std_find_bounds [of 0 "unat len" path NUL] by simp
  have before: "\<forall>i < ?e. path i \<noteq> NUL"
    using std_find_before [of 0 _ path "unat len" NUL] by simp
  have at: "?e < unat len \<longrightarrow> path ?e = NUL"
    using std_find_at [of 0 "unat len" path NUL] by simp
  have run: "get_child_run types this path (unat len) w = get_child_loop types path 0 ?e this w []"
    by (simp add: get_child_run_def)
  have lookups: "\<forall>t b n. Lookup t b n \<in> set (snd (snd (get_child_run types this path (unat len) w)))
           \<longrightarrow> b + n \<le> ?e"
    unfolding run by (rule get_child_loop_lookups) simp
  have indep: "get_child_run types this path' (unat len') w =
                 get_child_run types this path (unat len) w"
    if h: "?e \<le> unat len'" "\<forall>i < ?e. path' i = path i" "?e < unat len' \<longrightarrow> path' ?e = NUL"
    for path' and len' :: "'a word"
  proof -
    have "std_find path' 0 (unat len') NUL = ?e"
      using h before by (intro std_find_unique) simp_all
    moreover have "get_child_loop types path' 0 ?e this w [] =
        get_child_loop types path 0 ?e this w []"
      using h(2) by (intro get_child_loop_cong) simp
    ultimately show ?thesis by (simp add: get_child_run_def)
  qed
  from le before at run lookups indep show ?thesis by blast
qed

theorem get_child_honours_logical_end_witness:
  "(50 :: 64 word) \<le> PTRDIFF_MAX \<and> (10 :: 64 word) \<le> PTRDIFF_MAX
   \<and> get_child_run example_types example_root (cstr ''axis.motor'') 50 5 =
       (\<lparr>m_storage = [2, 0, 0, 0, 0, 0, 0, 0, 0, 0, 0, 0], m_type_info = Some 2\<rparr>, 5,
        [Lookup 0 0 4, Getter ''axis'', Lookup 1 5 5, Getter ''motor''])
   \<and> get_child_run example_types example_root (cstr ''axis.motor.velocity'') 10 5 =
       get_child_run example_types example_root (cstr ''axis.motor'') 50 5"
proof -
  have small: "(50 :: 64 word) \<le> PTRDIFF_MAX" "(10 :: 64 word) \<le> PTRDIFF_MAX"
    by (simp_all add: PTRDIFF_MAX_def)
  have nz: "\<forall>i<10. cstr ''axis.motor'' i \<noteq> NUL"
    by (simp add: cstr_def eval_nat_numeral All_less_Suc)
  have z: "cstr ''axis.motor'' 10 = NUL" by (simp add: cstr_def)
  have same: "\<forall>i<10. cstr ''axis.motor.velocity'' i = cstr ''axis.motor'' i"
    by (simp add: cstr_def eval_nat_numeral All_less_Suc)
  from get_child_honours_logical_end [OF small(1), of "cstr ''axis.motor''" example_types
      example_root 5]
  obtain e where e: "e \<le> 50" "\<forall>i<e. cstr ''axis.motor'' i \<noteq> NUL"
      "e < 50 \<longrightarrow> cstr ''axis.motor'' e = NUL"
    and run: "get_child_run example_types example_root (cstr ''axis.motor'') 50 5 =
        get_child_loop example_types (cstr ''axis.motor'') 0 e example_root 5 []"
    and indep: "\<And>path' (len' :: 64 word).
        len' \<le> PTRDIFF_MAX \<Longrightarrow> e \<le> unat len' \<Longrightarrow> \<forall>i<e. path' i = cstr ''axis.motor'' i \<Longrightarrow>
        (e < unat len' \<longrightarrow> path' e = NUL) \<Longrightarrow>
        get_child_run example_types example_root path' (unat len') 5 =
          get_child_run example_types example_root (cstr ''axis.motor'') 50 5"
    by auto
  have "\<not> 10 < e" using e(2) z by auto
  moreover have "\<not> e < 10" using e(3) nz by auto
  ultimately have e10: "e = 10" by simp
  have "get_child_run example_types example_root (cstr ''axis.motor'') 50 5 =
       (\<lparr>m_storage = [2, 0, 0, 0, 0, 0, 0, 0, 0, 0, 0, 0], m_type_info = Some 2\<rparr>, 5,
        [Lookup 0 0 4, Getter ''axis'', Lookup 1 5 5, Getter ''motor''])"
    unfolding run e10 by (simp add: run_simps example_simps)
  moreover have "get_child_run example_types example_root (cstr ''axis.motor.velocity'') 10 5 =
       get_child_run example_types example_root (cstr ''axis.motor'') 50 5"
    using indep [of "10 :: 64 word" "cstr ''axis.motor.velocity''"] small(2) same e10 by simp
  ultimately show ?thesis using small by simp
qed

text \<open>
  C10: invalidity is absorbing. On a handle whose \<^verbatim>\<open>TypeInfo\<close> pointer is null,
  \<^verbatim>\<open>get_child\<close> returns the receiver for every path and length: an invalid handle with
  the same storage bytes; the log of lookups and getter calls is empty and the
  application is left as it was.
\<close>

theorem get_child_invalid_absorbing:
  "\<not> is_valid this \<Longrightarrow>
     get_child_run types this path len w = (this, w, [])
     \<and> \<not> is_valid (get_child types this path len w)
     \<and> m_storage (get_child types this path len w) = m_storage this"
  by (simp add: is_valid_def get_child_def get_child_run_def get_child_loop_stop)

theorem get_child_invalid_absorbing_witness:
  "\<not> is_valid (example_root\<lparr>m_type_info := None\<rparr>)
   \<and> get_child_run example_types (example_root\<lparr>m_type_info := None\<rparr>)
        (cstr ''axis.motor'') 10 5 = (example_root\<lparr>m_type_info := None\<rparr>, 5, [])"
  using get_child_invalid_absorbing [of "example_root\<lparr>m_type_info := None\<rparr>" example_types
      "cstr ''axis.motor''" 10 5]
  by (simp add: is_valid_def)

subsection \<open>String access\<close>

text \<open>
  C5: \<^verbatim>\<open>set_string\<close> of the adapter of a read-write property. When \<^verbatim>\<open>from_string\<close>
  fails on the buffer, the result is false and the application is left as it was; when
  it yields a value of the underlying type, that value, cast to the type of the
  property, is written by \<^verbatim>\<open>exchange\<close> on the property held in the storage of the
  handle, and the result is true.
\<close>

theorem readwrite_set_string:
  "(from_string ext buffer len = None \<longrightarrow>
      set_string_hook (FibrePropertyTypeInfo_readwrite ext) obj buffer len w = (False, w))
   \<and> (\<forall>v. from_string ext buffer len = Some v \<longrightarrow>
      set_string_hook (FibrePropertyTypeInfo_readwrite ext) obj buffer len w =
        (True, Property_exchange ext (m_storage obj) (cast_T ext v) w))"
  by (simp add: FibrePropertyTypeInfo_readwrite_def FibrePropertyTypeInfo_set_string_def)

theorem readwrite_set_string_witness:
  "from_string example_ext (cstr ''x'') 1 = None
   \<and> set_string_hook (FibrePropertyTypeInfo_readwrite example_ext) example_root (cstr ''x'') 1 5
       = (False, 5)
   \<and> from_string example_ext (cstr ''7'') 1 = Some 7
   \<and> set_string_hook (FibrePropertyTypeInfo_readwrite example_ext) example_root (cstr ''7'') 1 5
       = (True, 7)"
proof -
  have bad: "from_string example_ext (cstr ''x'') 1 = None"
    by (simp add: example_ext_def cstr_def)
  have good: "from_string example_ext (cstr ''7'') 1 = Some 7"
    by (simp add: example_ext_def cstr_def)
  from bad have "set_string_hook (FibrePropertyTypeInfo_readwrite example_ext) example_root
      (cstr ''x'') 1 5 = (False, 5)"
    using readwrite_set_string [of example_ext "cstr ''x''" 1 example_root 5] by simp
  moreover from good have "set_string_hook (FibrePropertyTypeInfo_readwrite example_ext)
      example_root (cstr ''7'') 1 5 = (True, 7)"
    using readwrite_set_string [of example_ext "cstr ''7''" 1 example_root 5]
    by (simp add: example_ext_def)
  ultimately show ?thesis using bad good by simp
qed

text \<open>
  C6: on an invalid handle \<^verbatim>\<open>get_string\<close> and \<^verbatim>\<open>set_string\<close> return false, leave the
  buffer and the application as they were, and this for every store of type
  informations: no hook of any of them takes part. On a handle whose type information
  is a plain \<^verbatim>\<open>TypeInfo\<close> (a structural node, not an adapter), \<^verbatim>\<open>set_string\<close> returns
  false and leaves the application as it was.
\<close>

theorem string_access_guarded:
  "(\<not> is_valid this \<longrightarrow>
      get_string types this buffer len w = (False, buffer, w)
      \<and> set_string types this buffer len w = (False, w))
   \<and> (\<forall>t table. m_type_info this = Some t \<and> types t = TypeInfo_ctor table \<longrightarrow>
      set_string types this buffer len w = (False, w))"
  by (auto simp: is_valid_def get_string_def set_string_def TypeInfo_ctor_def
      TypeInfo_set_string_def)

theorem string_access_guarded_witness:
  "get_string example_types (example_root\<lparr>m_type_info := None\<rparr>) (cstr ''7'') 1 5
     = (False, cstr ''7'', 5)
   \<and> set_string example_types (example_root\<lparr>m_type_info := None\<rparr>) (cstr ''7'') 1 5 = (False, 5)
   \<and> set_string example_types example_root (cstr ''7'') 1 5 = (False, 5)"
proof -
  have "\<not> is_valid (example_root\<lparr>m_type_info := None\<rparr>)"
    by (simp add: is_valid_def)
  moreover have "m_type_info example_root = Some 0
     \<and> example_types 0 =
         TypeInfo_ctor [\<lparr>name = ''axis'', getter = example_getter 1, type_info = Some 1\<rparr>]"
    by (simp add: example_root_def example_types_def)
  ultimately show ?thesis
    using string_access_guarded [of "example_root\<lparr>m_type_info := None\<rparr>" example_types
        "cstr ''7''" 1 5]
      string_access_guarded [of example_root example_types "cstr ''7''" 1 5]
    by blast
qed

end
